theory Spec2Isabelle
  imports Complex_Main "HOL-Library.Word" "HOL-Library.Signed_Division"
begin

unbundle bit_operations_syntax

section \<open>Conventions\<close>

text \<open>
  The C++ paths of the sources are embedded (the branches taken when \<^verbatim>\<open>DRACO_RUST_CORE\<close>
  is not defined; the other branches only forward to functions that the headers do not contain).

  \<^item> \<^verbatim>\<open>uint8_t\<close>/\<^verbatim>\<open>char\<close>, \<^verbatim>\<open>uint16_t\<close>, \<^verbatim>\<open>int32_t\<close>/\<^verbatim>\<open>uint32_t\<close> and
    \<^verbatim>\<open>int64_t\<close>/\<^verbatim>\<open>size_t\<close> are words of 8, 16, 32 and 64 bits. A signed reading of a word
    is \<open>sint\<close>, a signed comparison is \<open>\<le>s\<close> or \<open><s\<close>.
  \<^item> A function that writes through a pointer takes the old content of the destination and
    returns the new one.
  \<^item> A memory access outside the array it is made on is undefined behaviour in C++; such an
    execution is the value \<open>None\<close>.
  \<^item> The bit offsets of the bit coders are \<^verbatim>\<open>size_t\<close> counters that advance by one per bit
    inside an allocated buffer; they are natural numbers here.
\<close>

type_synonym byte = "8 word"

section \<open>bit\_utils.h: signed integers and entropy coder symbols\<close>

text \<open>\<^verbatim>\<open>ConvertSignedIntToSymbol<int32_t>\<close>. The argument is an \<^verbatim>\<open>int32_t\<close>, the result
  an \<^verbatim>\<open>uint32_t\<close>.\<close>

definition ConvertSignedIntToSymbol :: "32 word \<Rightarrow> 32 word" where
  "ConvertSignedIntToSymbol val =
     (if 0 \<le>s val then push_bit 1 val
      else (let val' = - (val + 1);
                ret = push_bit 1 val'
            in ret OR 1))"

text \<open>\<^verbatim>\<open>ConvertSymbolToSignedInt<uint32_t>\<close>. The argument is an \<^verbatim>\<open>uint32_t\<close>, the result
  an \<^verbatim>\<open>int32_t\<close>.\<close>

definition ConvertSymbolToSignedInt :: "32 word \<Rightarrow> 32 word" where
  "ConvertSymbolToSignedInt val =
     (let is_positive = \<not> (val AND 1 \<noteq> 0);
          val' = drop_bit 1 val
      in if is_positive then val'
         else (let ret = val' in - ret - 1))"

section \<open>decoder\_buffer.h\<close>

subsection \<open>DecoderBuffer::BitDecoder\<close>

text \<open>The bytes between \<^verbatim>\<open>bit_buffer_\<close> and \<^verbatim>\<open>bit_buffer_end_\<close>, and \<^verbatim>\<open>bit_offset_\<close>.\<close>

record BitDecoder =
  dec_bit_buffer :: "byte list"
  dec_bit_offset :: nat

definition reset :: "byte list \<Rightarrow> nat \<Rightarrow> BitDecoder \<Rightarrow> BitDecoder" where
  "reset b s d = d\<lparr>dec_bit_offset := 0, dec_bit_buffer := take s b\<rparr>"

definition BitsDecoded :: "BitDecoder \<Rightarrow> nat" where
  "BitsDecoded d = dec_bit_offset d"

text \<open>\<^verbatim>\<open>GetBit\<close> returns the bit as an \<^verbatim>\<open>int\<close> that is 0 or 1, and 0 without advancing when
  the byte offset is not before \<^verbatim>\<open>bit_buffer_end_\<close>.\<close>

definition GetBit :: "BitDecoder \<Rightarrow> 32 word \<times> BitDecoder" where
  "GetBit d =
     (let off = dec_bit_offset d;
          byte_offset = off div 8;
          bit_shift = off mod 8
      in if byte_offset < length (dec_bit_buffer d)
         then (let b = ucast (drop_bit bit_shift (dec_bit_buffer d ! byte_offset)) AND 1
               in (b, d\<lparr>dec_bit_offset := off + 1\<rparr>))
         else (0, d))"

definition PeekBit :: "BitDecoder \<Rightarrow> nat \<Rightarrow> 32 word" where
  "PeekBit d offset =
     (let off = dec_bit_offset d + offset;
          byte_offset = off div 8;
          bit_shift = off mod 8
      in if byte_offset < length (dec_bit_buffer d)
         then ucast (drop_bit bit_shift (dec_bit_buffer d ! byte_offset)) AND 1
         else 0)"

definition ConsumeBits :: "nat \<Rightarrow> BitDecoder \<Rightarrow> BitDecoder" where
  "ConsumeBits k d = d\<lparr>dec_bit_offset := dec_bit_offset d + k\<rparr>"

text \<open>The loop of \<^verbatim>\<open>GetBits\<close>: \<^verbatim>\<open>for (bit = 0; bit < nbits; ++bit) value |= GetBit() << bit;\<close>
  The loop counter \<^verbatim>\<open>bit\<close> is \<open>bit_i\<close>.\<close>

function GetBits_loop :: "nat \<Rightarrow> nat \<Rightarrow> 32 word \<Rightarrow> BitDecoder \<Rightarrow> 32 word \<times> BitDecoder" where
  "GetBits_loop bit_i nbits val d =
     (if bit_i < nbits
      then GetBits_loop (bit_i + 1) nbits (val OR push_bit bit_i (fst (GetBit d))) (snd (GetBit d))
      else (val, d))"
  by pat_completeness auto
termination
  by (relation "measure (\<lambda>(bit_i, nbits, val, d). nbits - bit_i)") auto

declare GetBits_loop.simps [simp del]

text \<open>\<^verbatim>\<open>GetBits(nbits, x)\<close>: the result is the returned flag, the content of \<^verbatim>\<open>*x\<close> and the
  decoder.\<close>

definition GetBits :: "32 word \<Rightarrow> 32 word \<Rightarrow> BitDecoder \<Rightarrow> bool \<times> 32 word \<times> BitDecoder" where
  "GetBits nbits x d =
     (if 32 < nbits then (False, x, d)
      else (let r = GetBits_loop 0 (unat nbits) 0 d
            in (True, fst r, snd r)))"

subsection \<open>DecoderBuffer\<close>

record DecoderBuffer =
  data :: "byte list"
  data_size :: "64 word"
  pos :: "64 word"
  bit_decoder :: BitDecoder
  bit_mode :: bool
  bitstream_version :: "16 word"

text \<open>\<^verbatim>\<open>memcpy(out, data_ + pos_, n)\<close>: the first \<open>n\<close> bytes of the destination are replaced by
  the \<open>n\<close> bytes of the array \<^verbatim>\<open>data_\<close> from the signed offset \<^verbatim>\<open>pos_\<close>; undefined when that
  range is not inside the array.\<close>

definition memcpy_data :: "byte list \<Rightarrow> 64 word \<Rightarrow> 64 word \<Rightarrow> byte list \<Rightarrow> byte list option" where
  "memcpy_data src p n dst =
     (if 0 \<le> sint p \<and> nat (sint p) + unat n \<le> length src
      then Some (take (unat n) (drop (nat (sint p)) src) @ drop (unat n) dst)
      else None)"

text \<open>\<^verbatim>\<open>bool Peek(void *out_data, size_t size_to_peek)\<close>. The sum \<^verbatim>\<open>pos_ + size_to_peek\<close> is
  computed in 64 bits and read as an \<^verbatim>\<open>int64_t\<close>.\<close>

definition Peek :: "DecoderBuffer \<Rightarrow> byte list \<Rightarrow> 64 word \<Rightarrow> (bool \<times> byte list \<times> DecoderBuffer) option" where
  "Peek b out_data size_to_peek =
     (if data_size b <s pos b + size_to_peek then Some (False, out_data, b)
      else (case memcpy_data (data b) (pos b) size_to_peek out_data of
              None \<Rightarrow> None
            | Some out' \<Rightarrow> Some (True, out', b)))"

text \<open>\<^verbatim>\<open>bool Decode(void *out_data, size_t size_to_decode)\<close>.\<close>

definition Decode :: "DecoderBuffer \<Rightarrow> byte list \<Rightarrow> 64 word \<Rightarrow> (bool \<times> byte list \<times> DecoderBuffer) option" where
  "Decode b out_data size_to_decode =
     (if data_size b <s pos b + size_to_decode then Some (False, out_data, b)
      else (case memcpy_data (data b) (pos b) size_to_decode out_data of
              None \<Rightarrow> None
            | Some out' \<Rightarrow> Some (True, out', b\<lparr>pos := pos b + size_to_decode\<rparr>)))"

text \<open>\<^verbatim>\<open>template <typename T> bool Peek(T *out_val)\<close>; \<open>sizeof_T\<close> is \<^verbatim>\<open>sizeof(T)\<close>.\<close>

definition Peek_T :: "64 word \<Rightarrow> DecoderBuffer \<Rightarrow> byte list \<Rightarrow> (bool \<times> byte list \<times> DecoderBuffer) option" where
  "Peek_T sizeof_T b out_val =
     (let size_to_decode = sizeof_T
      in if data_size b <s pos b + size_to_decode then Some (False, out_val, b)
         else (case memcpy_data (data b) (pos b) size_to_decode out_val of
                 None \<Rightarrow> None
               | Some out' \<Rightarrow> Some (True, out', b)))"

text \<open>\<^verbatim>\<open>template <typename T> bool Decode(T *out_val)\<close>.\<close>

definition Decode_T :: "64 word \<Rightarrow> DecoderBuffer \<Rightarrow> byte list \<Rightarrow> (bool \<times> byte list \<times> DecoderBuffer) option" where
  "Decode_T sizeof_T b out_val =
     (case Peek_T sizeof_T b out_val of
        None \<Rightarrow> None
      | Some (ok, out', b') \<Rightarrow>
          if \<not> ok then Some (False, out', b')
          else Some (True, out', b'\<lparr>pos := pos b' + sizeof_T\<rparr>))"

definition Advance :: "64 word \<Rightarrow> DecoderBuffer \<Rightarrow> DecoderBuffer" where
  "Advance bytes b = b\<lparr>pos := pos b + bytes\<rparr>"

definition StartDecodingFrom :: "64 word \<Rightarrow> DecoderBuffer \<Rightarrow> DecoderBuffer" where
  "StartDecodingFrom offset b = b\<lparr>pos := offset\<rparr>"

definition remaining_size :: "DecoderBuffer \<Rightarrow> 64 word" where
  "remaining_size b = data_size b - pos b"

definition decoded_size :: "DecoderBuffer \<Rightarrow> 64 word" where
  "decoded_size b = pos b"

definition bit_decoder_active :: "DecoderBuffer \<Rightarrow> bool" where
  "bit_decoder_active b = bit_mode b"

text \<open>\<^verbatim>\<open>bool DecodeLeastSignificantBits32(uint32_t nbits, uint32_t *out_value)\<close>.\<close>

definition DecodeLeastSignificantBits32 ::
    "32 word \<Rightarrow> 32 word \<Rightarrow> DecoderBuffer \<Rightarrow> bool \<times> 32 word \<times> DecoderBuffer" where
  "DecodeLeastSignificantBits32 nbits out_value b =
     (if \<not> bit_decoder_active b then (False, out_value, b)
      else (case GetBits nbits out_value (bit_decoder b) of
              (ok, v, d) \<Rightarrow> (ok, v, b\<lparr>bit_decoder := d\<rparr>)))"

section \<open>encoder\_buffer.h\<close>

subsection \<open>EncoderBuffer::BitEncoder\<close>

text \<open>\<^verbatim>\<open>bit_buffer_\<close> points into the vector \<^verbatim>\<open>buffer_\<close> of the encoder buffer that owns the
  bit encoder: it is the index of the byte it points to. The functions that write through it
  take and return the content of that vector.\<close>

record BitEncoder =
  enc_bit_buffer :: nat
  enc_bit_offset :: nat

definition Bits :: "BitEncoder \<Rightarrow> nat" where
  "Bits e = enc_bit_offset e"

definition PutBit :: "byte \<Rightarrow> BitEncoder \<Rightarrow> byte list \<Rightarrow> (BitEncoder \<times> byte list) option" where
  "PutBit val e mem =
     (let byte_size = 8;
          off = enc_bit_offset e;
          byte_offset = off div byte_size;
          bit_shift = off mod byte_size;
          i = enc_bit_buffer e + byte_offset
      in if i < length mem
         then (let c = mem ! i AND NOT (push_bit bit_shift 1);
                   c' = c OR push_bit bit_shift val
               in Some (e\<lparr>enc_bit_offset := off + 1\<rparr>, mem[i := c']))
         else None)"

text \<open>The loop of \<^verbatim>\<open>PutBits(data, nbits)\<close>:
  \<^verbatim>\<open>for (int32_t bit = 0; bit < nbits; ++bit) PutBit((data >> bit) & 1);\<close>
  Shifting the 32-bit \<^verbatim>\<open>data\<close> by 32 or more is undefined.\<close>

function PutBits_loop ::
    "32 word \<Rightarrow> int \<Rightarrow> nat \<Rightarrow> BitEncoder \<Rightarrow> byte list \<Rightarrow> (BitEncoder \<times> byte list) option" where
  "PutBits_loop dat nbits bit_i e mem =
     (if int bit_i < nbits
      then (if 32 \<le> bit_i then None
            else (case PutBit (ucast (drop_bit bit_i dat AND 1)) e mem of
                    None \<Rightarrow> None
                  | Some r \<Rightarrow> PutBits_loop dat nbits (bit_i + 1) (fst r) (snd r)))
      else Some (e, mem))"
  by pat_completeness auto
termination
  by (relation "measure (\<lambda>(dat, nbits, bit_i, e, mem). nat (nbits - int bit_i))") auto

declare PutBits_loop.simps [simp del]

definition PutBits :: "32 word \<Rightarrow> int \<Rightarrow> BitEncoder \<Rightarrow> byte list \<Rightarrow> (BitEncoder \<times> byte list) option" where
  "PutBits dat nbits e mem = PutBits_loop dat nbits 0 e mem"

subsection \<open>EncoderBuffer\<close>

text \<open>\<^verbatim>\<open>bit_encoder_\<close> is a \<^verbatim>\<open>unique_ptr\<close>: \<open>None\<close> is the null pointer.\<close>

record EncoderBuffer =
  buffer :: "byte list"
  bit_encoder :: "BitEncoder option"
  bit_encoder_reserved_bytes :: "64 word"
  encode_bit_sequence_size :: bool

definition bit_encoder_active :: "EncoderBuffer \<Rightarrow> bool" where
  "bit_encoder_active e = (0 <s bit_encoder_reserved_bytes e)"

text \<open>\<^verbatim>\<open>template <typename T> bool Encode(const T &data)\<close>; \<open>src_data\<close> is the object
  representation of the value, \<^verbatim>\<open>sizeof(T)\<close> bytes.\<close>

definition Encode_T :: "byte list \<Rightarrow> EncoderBuffer \<Rightarrow> bool \<times> EncoderBuffer" where
  "Encode_T src_data e =
     (if bit_encoder_active e then (False, e)
      else (True, e\<lparr>buffer := buffer e @ src_data\<rparr>))"

text \<open>\<^verbatim>\<open>bool Encode(const void *data, size_t data_size)\<close>; \<open>src_data\<close> is the array that
  \<^verbatim>\<open>data\<close> points to. Reading more bytes than it has is undefined.\<close>

definition Encode :: "byte list \<Rightarrow> 64 word \<Rightarrow> EncoderBuffer \<Rightarrow> (bool \<times> EncoderBuffer) option" where
  "Encode src_data n e =
     (if bit_encoder_active e then Some (False, e)
      else if unat n \<le> length src_data
      then Some (True, e\<lparr>buffer := buffer e @ take (unat n) src_data\<rparr>)
      else None)"

text \<open>\<^verbatim>\<open>bool EncodeLeastSignificantBits32(int nbits, uint32_t value)\<close>.\<close>

definition EncodeLeastSignificantBits32 ::
    "int \<Rightarrow> 32 word \<Rightarrow> EncoderBuffer \<Rightarrow> (bool \<times> EncoderBuffer) option" where
  "EncodeLeastSignificantBits32 nbits val e =
     (if \<not> bit_encoder_active e then Some (False, e)
      else (case bit_encoder e of
              None \<Rightarrow> None
            | Some be \<Rightarrow>
                (case PutBits val nbits be (buffer e) of
                   None \<Rightarrow> None
                 | Some r \<Rightarrow> Some (True, e\<lparr>buffer := snd r, bit_encoder := Some (fst r)\<rparr>))))"

section \<open>mesh.h\<close>

type_synonym PointIndex = "32 word"
type_synonym FaceIndex = "32 word"

text \<open>\<^verbatim>\<open>typedef std::array<PointIndex, 3> Face\<close>, with its indexing operator.\<close>

type_synonym Face = "PointIndex \<times> PointIndex \<times> PointIndex"

fun Face_at :: "Face \<Rightarrow> int \<Rightarrow> PointIndex option" where
  "Face_at (p0, p1, p2) k =
     (if k = 0 then Some p0 else if k = 1 then Some p1 else if k = 2 then Some p2 else None)"

record Mesh =
  faces :: "Face list"

definition AddFace :: "Face \<Rightarrow> Mesh \<Rightarrow> Mesh" where
  "AddFace f m = m\<lparr>faces := faces m @ [f]\<rparr>"

definition NumFaces :: "Mesh \<Rightarrow> nat" where
  "NumFaces m = length (faces m)"

text \<open>\<^verbatim>\<open>const Face &face(FaceIndex i) const { return faces_[i]; }\<close>\<close>

definition face :: "Mesh \<Rightarrow> FaceIndex \<Rightarrow> Face option" where
  "face m i = (if unat i < length (faces m) then Some (faces m ! unat i) else None)"

text \<open>\<^verbatim>\<open>PointIndex CornerToPointId(int ci) const\<close>. The constants \<^verbatim>\<open>kInvalidCornerIndex\<close> and
  \<^verbatim>\<open>kInvalidPointIndex\<close> are declared in a header that is not part of the sources; they are
  parameters. The result is the returned point index together with the list of the indices
  at which the function reads \<^verbatim>\<open>faces_\<close>.\<close>

definition CornerToPointId ::
    "32 word \<Rightarrow> PointIndex \<Rightarrow> Mesh \<Rightarrow> 32 word \<Rightarrow> PointIndex option \<times> FaceIndex list" where
  "CornerToPointId kInvalidCornerIndex kInvalidPointIndex m ci =
     (if ci <s 0 \<or> ci = kInvalidCornerIndex then (Some kInvalidPointIndex, [])
      else (let fi = word_of_int (sint ci sdiv 3)
            in (case face m fi of
                  None \<Rightarrow> None
                | Some f \<Rightarrow> Face_at f (sint ci smod 3), [fi])))"

text \<open>\<^verbatim>\<open>PointIndex CornerToPointId(CornerIndex ci) const\<close>: the \<^verbatim>\<open>uint32_t\<close> value of the
  index is passed as an \<^verbatim>\<open>int\<close>.\<close>

definition CornerToPointId_CornerIndex ::
    "32 word \<Rightarrow> PointIndex \<Rightarrow> Mesh \<Rightarrow> 32 word \<Rightarrow> PointIndex option \<times> FaceIndex list" where
  "CornerToPointId_CornerIndex kInvalidCornerIndex kInvalidPointIndex m ci =
     CornerToPointId kInvalidCornerIndex kInvalidPointIndex m ci"

section \<open>draco\_compression\_options.h\<close>

datatype Mode = UNDEFINED | LOCAL_QUANTIZATION_BITS | GLOBAL_GRID

record SpatialQuantizationOptions =
  mode :: Mode
  quantization_bits :: int
  spacing :: real

text \<open>The default constructor of \<^verbatim>\<open>SpatialQuantizationOptions\<close>.\<close>

definition SpatialQuantizationOptions_default :: SpatialQuantizationOptions where
  "SpatialQuantizationOptions_default =
     \<lparr>mode = UNDEFINED, quantization_bits = 0, spacing = 0\<rparr>"

record DracoCompressionOptions =
  compression_level :: int
  quantization_position :: SpatialQuantizationOptions
  quantization_bits_tex_coord :: int
  quantization_bits_normal :: int
  quantization_bits_color :: int
  quantization_bits_generic :: int
  quantization_bits_tangent :: int
  quantization_bits_weight :: int
  quantization_range :: real
  quantization_origin :: "real list option"
  create_metadata :: bool
  preserve_polygons :: bool
  use_built_in_attribute_compression :: bool
  metadata_quantization :: "string list"
  metadata_original_name :: "string list"

text \<open>The constructor of \<^verbatim>\<open>DracoCompressionOptions\<close>. The converting constructor
  \<^verbatim>\<open>SpatialQuantizationOptions(int)\<close>, which initialises \<^verbatim>\<open>quantization_position(11)\<close>, is
  declared in the header but its body is not part of the sources: it is the parameter \<open>mk\<close>.\<close>

definition DracoCompressionOptions_init ::
    "(int \<Rightarrow> SpatialQuantizationOptions) \<Rightarrow> DracoCompressionOptions" where
  "DracoCompressionOptions_init mk =
     \<lparr>compression_level = 7,
      quantization_position = mk 11,
      quantization_bits_tex_coord = 10,
      quantization_bits_normal = 8,
      quantization_bits_color = 8,
      quantization_bits_generic = 8,
      quantization_bits_tangent = 8,
      quantization_bits_weight = 8,
      quantization_range = - 1,
      quantization_origin = None,
      create_metadata = False,
      preserve_polygons = False,
      use_built_in_attribute_compression = True,
      metadata_quantization = [],
      metadata_original_name = []\<rparr>"

section \<open>crates/draco-io/API.md: QuantizationBits\<close>

text \<open>The structure \<^verbatim>\<open>QuantizationBits\<close> and its \<^verbatim>\<open>Default\<close> implementation, as the API
  reference of the repository lists them.\<close>

record QuantizationBits =
  position :: int
  normal :: int
  color :: int
  texcoord :: int
  generic :: int

definition QuantizationBits_default :: QuantizationBits where
  "QuantizationBits_default =
     \<lparr>position = 14, normal = 10, color = 8, texcoord = 12, generic = 8\<rparr>"

section \<open>Corner table\<close>

text \<open>Modelled from the spec: the class of the corner table is not part of the sources. For
  a corner \<open>c\<close> the spec gives \<open>face(c) = c/3\<close> and
  \<open>vertex(c) = face_vertex[face(c)][c%3]\<close>, where \<open>face_vertex\<close> is the list of the faces;
  \<open>vertex\<close> is defined for the corners of the faces that exist.\<close>

definition corner_table_face :: "nat \<Rightarrow> nat" where
  "corner_table_face c = c div 3"

definition corner_table_vertex :: "Face list \<Rightarrow> nat \<Rightarrow> PointIndex option" where
  "corner_table_vertex face_vertex c =
     (if corner_table_face c < length face_vertex
      then (case face_vertex ! corner_table_face c of
              (p0, p1, p2) \<Rightarrow> Some (if c mod 3 = 0 then p0 else if c mod 3 = 1 then p1 else p2))
      else None)"

section \<open>Bit streams\<close>

text \<open>Bit \<open>k\<close> of a byte array read as a flat bit stream in which the bits of each byte are
  counted from its least significant bit: bit \<open>k mod 8\<close> of byte \<open>k div 8\<close>.\<close>

definition bit_at :: "byte list \<Rightarrow> nat \<Rightarrow> bool" where
  "bit_at mem k = bit (mem ! (k div 8)) (k mod 8)"

section \<open>Properties of the symbol conversion\<close>

lemma neg_succ_eq_not: "- (v + 1) = NOT (v :: 32 word)"
  by (simp add: not_eq_complement)

lemma neg_minus_one_eq_not: "- v - 1 = NOT (v :: 32 word)"
  by (simp add: not_eq_complement)

lemma sle_zero_iff_msb: "(0 \<le>s (v :: 32 word)) = (\<not> bit v 31)"
  using bit_last_iff [of v] by (simp add: word_sle_eq not_less)

lemma and_one_eq_zero_iff: "((w :: 32 word) AND 1 = 0) = (\<not> bit w 0)"
  by (simp add: and_one_eq bit_0 mod_2_eq_odd)

lemma bit_shl1: "bit (push_bit 1 (v :: 32 word)) n = (0 < n \<and> n < 32 \<and> bit v (n - 1))"
  by (auto simp only: bit_push_bit_iff possible_bit_word len_bit0 len_num1 One_nat_def
       simp_thms)

lemma bit_double: "bit ((v :: 32 word) * 2) n = (0 < n \<and> n < 32 \<and> bit v (n - 1))"
  using bit_shl1 [of v n] by (simp add: push_bit_eq_mult)

lemma drop_push_msb_clear:
  "\<not> bit (v :: 32 word) 31 \<Longrightarrow> drop_bit 1 (push_bit 1 v) = v"
  apply (rule bit_word_eqI)
  apply (case_tac "n = 31")
  apply (simp_all add: bit_drop_bit_eq bit_double)
  done

lemma drop_push_or_msb_clear:
  "\<not> bit (v :: 32 word) 31 \<Longrightarrow> drop_bit 1 (push_bit 1 v OR 1) = v"
  apply (rule bit_word_eqI)
  apply (case_tac "n = 31")
  apply (simp_all add: bit_drop_bit_eq bit_or_iff bit_double bit_1_iff)
  done

lemma msb_drop1: "\<not> bit (drop_bit 1 (u :: 32 word)) 31"
  by (auto simp add: bit_drop_bit_eq dest: bit_imp_le_length)

lemma push_drop_even: "\<not> bit (u :: 32 word) 0 \<Longrightarrow> push_bit 1 (drop_bit 1 u) = u"
  apply (rule bit_word_eqI)
  apply (case_tac "n = 0")
  apply (simp_all add: bit_drop_bit_eq bit_double)
  done

lemma push_drop_odd: "bit (u :: 32 word) 0 \<Longrightarrow> push_bit 1 (drop_bit 1 u) OR 1 = u"
  apply (rule bit_word_eqI)
  apply (case_tac "n = 0")
  apply (simp_all add: bit_drop_bit_eq bit_or_iff bit_double bit_1_iff)
  done

lemma symbol_to_signed_of_signed_to_symbol:
  "ConvertSymbolToSignedInt (ConvertSignedIntToSymbol v) = v"
proof (cases "0 \<le>s v")
  case True
  then have m: "\<not> bit v 31" by (simp add: sle_zero_iff_msb)
  have e: "\<not> bit (push_bit 1 v) 0" by (simp only: bit_shl1) simp
  have "ConvertSignedIntToSymbol v = push_bit 1 v"
    using True by (simp only: ConvertSignedIntToSymbol_def if_True)
  then show ?thesis using m e
    by (simp only: ConvertSymbolToSignedInt_def and_one_eq_zero_iff drop_push_msb_clear Let_def
         simp_thms if_True)
next
  case False
  then have m: "\<not> bit (NOT v) 31" by (simp add: sle_zero_iff_msb bit_not_iff)
  have e: "bit (push_bit 1 (NOT v) OR 1) 0" by (simp only: bit_or_iff bit_1_iff) simp
  have "ConvertSignedIntToSymbol v = push_bit 1 (NOT v) OR 1"
    using False by (simp only: ConvertSignedIntToSymbol_def if_False Let_def neg_succ_eq_not)
  then show ?thesis using m e
    by (simp only: ConvertSymbolToSignedInt_def and_one_eq_zero_iff drop_push_or_msb_clear Let_def
         simp_thms if_False neg_minus_one_eq_not) simp
qed

lemma signed_to_symbol_of_symbol_to_signed:
  "ConvertSignedIntToSymbol (ConvertSymbolToSignedInt u) = u"
proof (cases "bit u 0")
  case False
  then have 1: "ConvertSymbolToSignedInt u = drop_bit 1 u"
    by (simp only: ConvertSymbolToSignedInt_def and_one_eq_zero_iff Let_def simp_thms if_True)
  have 2: "0 \<le>s drop_bit 1 u" by (simp only: sle_zero_iff_msb msb_drop1 simp_thms)
  have "ConvertSignedIntToSymbol (drop_bit 1 u) = push_bit 1 (drop_bit 1 u)"
    using 2 by (simp only: ConvertSignedIntToSymbol_def if_True)
  also have "\<dots> = u" using False by (rule push_drop_even)
  finally show ?thesis by (simp only: 1)
next
  case True
  then have 1: "ConvertSymbolToSignedInt u = NOT (drop_bit 1 u)"
    by (simp only: ConvertSymbolToSignedInt_def and_one_eq_zero_iff Let_def simp_thms if_False
          neg_minus_one_eq_not)
  have 2: "\<not> 0 \<le>s NOT (drop_bit 1 u)"
    by (simp only: sle_zero_iff_msb bit_not_iff msb_drop1) simp
  have "ConvertSignedIntToSymbol (NOT (drop_bit 1 u)) = push_bit 1 (NOT (NOT (drop_bit 1 u))) OR 1"
    using 2 by (simp only: ConvertSignedIntToSymbol_def if_False Let_def neg_succ_eq_not)
  also have "\<dots> = push_bit 1 (drop_bit 1 u) OR 1" by (simp only: bit.double_compl)
  also have "\<dots> = u" using True by (rule push_drop_odd)
  finally show ?thesis by (simp only: 1)
qed

lemma shl1_or1_arith: "push_bit 1 (x :: 32 word) OR 1 = 2 * x + 1"
proof -
  have "push_bit 1 x AND 1 = 0"
    by (rule bit_word_eqI) (simp only: bit_and_iff bit_shl1 bit_1_iff, auto)
  then have "push_bit 1 x + 1 = push_bit 1 x OR 1" by (rule disjunctive_add_eq_or)
  then have "push_bit 1 x OR 1 = push_bit 1 x + 1" by (rule sym)
  also have "\<dots> = 2 * x + 1" by (simp add: push_bit_eq_mult)
  finally show ?thesis .
qed

lemma signed_to_symbol_word_formula:
  "ConvertSignedIntToSymbol v = (if sint v < 0 then - 2 * v - 1 else 2 * v)"
proof (cases "0 \<le>s v")
  case True
  then have "\<not> sint v < 0" by (simp add: word_sle_eq)
  then show ?thesis using True
    by (simp add: ConvertSignedIntToSymbol_def push_bit_eq_mult)
next
  case False
  then have "sint v < 0" by (simp add: word_sle_eq)
  moreover have "push_bit 1 (- (v + 1)) OR 1 = - 2 * v - 1"
    by (simp only: shl1_or1_arith) simp
  ultimately show ?thesis using False
    by (simp only: ConvertSignedIntToSymbol_def Let_def if_False if_True)
qed

lemma signed_to_symbol_int_formula:
  "uint (ConvertSignedIntToSymbol v) = (if sint v < 0 then - 2 * sint v - 1 else 2 * sint v)"
proof -
  have b: "- (2 ^ 31) \<le> sint v" "sint v < 2 ^ 31"
    using sint_ge [of v] sint_lt [of v] by simp_all
  show ?thesis
  proof (cases "sint v < 0")
    case True
    have "ConvertSignedIntToSymbol v = - 2 * word_of_int (sint v) - 1"
      using True by (simp add: signed_to_symbol_word_formula)
    also have "\<dots> = word_of_int (- 2 * sint v - 1)" by simp
    finally have "uint (ConvertSignedIntToSymbol v) = (- 2 * sint v - 1) mod 2 ^ 32"
      by (simp only: uint_word_of_int) simp
    also have "\<dots> = - 2 * sint v - 1" using b True by (intro mod_pos_pos_trivial) simp_all
    finally show ?thesis using True by simp
  next
    case False
    have "ConvertSignedIntToSymbol v = 2 * word_of_int (sint v)"
      using False by (simp add: signed_to_symbol_word_formula)
    also have "\<dots> = word_of_int (2 * sint v)" by simp
    finally have "uint (ConvertSignedIntToSymbol v) = (2 * sint v) mod 2 ^ 32"
      by (simp only: uint_word_of_int) simp
    also have "\<dots> = 2 * sint v" using b False by (intro mod_pos_pos_trivial) simp_all
    finally show ?thesis using False by simp
  qed
qed

text \<open>
  Claim C2. For every 32-bit signed integer \<open>v\<close>, \<^verbatim>\<open>INT32_MIN\<close> included, the symbol of \<open>v\<close>
  is the unsigned integer \<open>- 2 v - 1\<close> when \<open>v\<close> is negative and \<open>2 v\<close> otherwise, converting
  that symbol back returns exactly \<open>v\<close>, and converting any 32-bit symbol \<open>u\<close> to a signed
  integer and back returns \<open>u\<close>: the two functions are mutually inverse.
\<close>

theorem zigzag_mutually_inverse:
  "ConvertSymbolToSignedInt (ConvertSignedIntToSymbol v) = v
   \<and> ConvertSignedIntToSymbol (ConvertSymbolToSignedInt u) = u
   \<and> uint (ConvertSignedIntToSymbol v) = (if sint v < 0 then - 2 * sint v - 1 else 2 * sint v)"
  by (simp only: symbol_to_signed_of_signed_to_symbol signed_to_symbol_of_symbol_to_signed
        signed_to_symbol_int_formula simp_thms)

text \<open>The smallest 32-bit integer, \<open>- 2\<^sup>3\<^sup>1\<close>, has the largest symbol, \<open>2\<^sup>3\<^sup>2 - 1\<close>.\<close>

theorem zigzag_mutually_inverse_witness:
  "ConvertSymbolToSignedInt (ConvertSignedIntToSymbol (- 2147483648)) = - 2147483648
   \<and> ConvertSignedIntToSymbol (ConvertSymbolToSignedInt 4294967295) = 4294967295
   \<and> ConvertSignedIntToSymbol (- 2147483648) = 4294967295"
proof -
  have "uint (ConvertSignedIntToSymbol (- 2147483648)) = 4294967295"
    using zigzag_mutually_inverse [of "- 2147483648" 0] by simp
  then have "ConvertSignedIntToSymbol (- 2147483648) = word_of_int 4294967295"
    by (metis word_of_int_uint)
  then show ?thesis
    using zigzag_mutually_inverse [of "- 2147483648" 4294967295] by simp
qed

section \<open>Byte-mode reads of the decoder buffer\<close>

lemma sint_eq_uint_64: "uint (w :: 64 word) < 2 ^ 63 \<Longrightarrow> sint w = uint w"
proof -
  assume "uint w < 2 ^ 63"
  moreover have "- (2 ^ 63) \<le> uint w"
    by (rule order_trans [of _ 0]) simp_all
  ultimately have "signed_take_bit 63 (uint w) = uint w"
    by (rule signed_take_bit_int_eq_self [rotated])
  then show ?thesis by (simp add: sint_uint)
qed

lemma uint_eq_sint_64: "0 \<le> sint (w :: 64 word) \<Longrightarrow> uint w = sint w"
  using sint_lt [of w] by (simp add: uint_sint take_bit_int_eq_self)

lemma sint_add_no_wrap:
  assumes "0 \<le> sint (p :: 64 word)" "sint p + uint (n :: 64 word) < 2 ^ 63"
  shows "sint (p + n) = sint p + uint n"
proof -
  have up: "uint p = sint p" using assms(1) by (rule uint_eq_sint_64)
  have "uint (p + n) = (uint p + uint n) mod 2 ^ 64" by (simp add: uint_word_ariths)
  also have "\<dots> = uint p + uint n"
    using assms up by (intro mod_pos_pos_trivial) simp_all
  finally have u: "uint (p + n) = sint p + uint n" using up by simp
  then have "uint (p + n) < 2 ^ 63" using assms(2) by simp
  then have "sint (p + n) = uint (p + n)" by (rule sint_eq_uint_64)
  then show ?thesis using u by simp
qed

lemma Peek_T_eq_Peek: "Peek_T sizeof_T b out_val = Peek b out_val sizeof_T"
  by (simp add: Peek_T_def Peek_def)

lemma Decode_T_eq_Decode: "Decode_T sizeof_T b out_val = Decode b out_val sizeof_T"
  by (simp add: Decode_T_def Peek_T_def Decode_def split: option.splits)

lemma Decode_False_iff:
  "(Decode b out n = Some (False, out', b')) = (data_size b <s pos b + n \<and> out' = out \<and> b' = b)"
  by (auto simp add: Decode_def split: option.splits)

lemma Peek_False_iff:
  "(Peek b out n = Some (False, out', b')) = (data_size b <s pos b + n \<and> out' = out \<and> b' = b)"
  by (auto simp add: Peek_def split: option.splits)

lemma underflow_check:
  assumes "0 \<le> sint (pos b)" "sint (pos b) + uint n < 2 ^ 63"
    and "sint (data_size b) < sint (pos b) + uint n"
  shows "data_size b <s pos b + n"
  using assms by (simp add: word_sless_alt sint_add_no_wrap)

lemma inbounds_check:
  assumes "0 \<le> sint (pos b)" "sint (pos b) + uint n \<le> sint (data_size b)"
  shows "\<not> data_size b <s pos b + n"
proof -
  have "sint (pos b) + uint n < 2 ^ 63" using assms(2) sint_lt [of "data_size b"] by simp
  then show ?thesis using assms by (simp add: word_sless_alt sint_add_no_wrap)
qed

lemma memcpy_data_inbounds:
  assumes "0 \<le> sint p" "sint p + uint n \<le> int (length src)"
  shows "memcpy_data src p n dst = Some (take (unat n) (drop (nat (sint p)) src) @ drop (unat n) dst)"
proof -
  have "int (nat (sint p) + unat n) = sint p + uint n" using assms(1) by simp
  then have "int (nat (sint p) + unat n) \<le> int (length src)" using assms(2) by simp
  then have "nat (sint p) + unat n \<le> length src" by (simp only: of_nat_le_iff)
  then show ?thesis using assms(1) by (simp add: memcpy_data_def)
qed

text \<open>
  Claim C8. A byte-mode read that fails leaves everything as it was: when \<^verbatim>\<open>Decode\<close> or
  \<^verbatim>\<open>Peek\<close> (with an explicit size or for a type of that size) returns false, the buffer,
  and so \<^verbatim>\<open>decoded_size()\<close> and \<^verbatim>\<open>remaining_size()\<close>, and the output location are the
  ones before the call. This is what happens when fewer bytes remain than are requested:
  from a position that is not negative, a request that ends after \<^verbatim>\<open>data_size_\<close> (and
  before \<open>2\<^sup>6\<^sup>3\<close>) makes the four functions return false with the output and the buffer
  untouched.
\<close>

theorem failed_read_leaves_buffer:
  "(Decode b out n = Some (False, out', b') \<longrightarrow>
      out' = out \<and> b' = b \<and> decoded_size b' = decoded_size b \<and> remaining_size b' = remaining_size b)
   \<and> (Peek b out n = Some (False, out', b') \<longrightarrow>
      out' = out \<and> b' = b \<and> decoded_size b' = decoded_size b \<and> remaining_size b' = remaining_size b)
   \<and> (Decode_T n b out = Some (False, out', b') \<longrightarrow>
      out' = out \<and> b' = b \<and> decoded_size b' = decoded_size b \<and> remaining_size b' = remaining_size b)
   \<and> (Peek_T n b out = Some (False, out', b') \<longrightarrow>
      out' = out \<and> b' = b \<and> decoded_size b' = decoded_size b \<and> remaining_size b' = remaining_size b)
   \<and> (0 \<le> sint (pos b) \<and> sint (pos b) + uint n < 2 ^ 63
        \<and> sint (data_size b) - sint (pos b) < uint n \<longrightarrow>
      Decode b out n = Some (False, out, b) \<and> Peek b out n = Some (False, out, b)
      \<and> Decode_T n b out = Some (False, out, b) \<and> Peek_T n b out = Some (False, out, b))"
proof -
  have "data_size b <s pos b + n"
    if "0 \<le> sint (pos b)" "sint (pos b) + uint n < 2 ^ 63" "sint (data_size b) - sint (pos b) < uint n"
    using that by (intro underflow_check) simp_all
  then show ?thesis
    by (simp add: Decode_T_eq_Decode Peek_T_eq_Peek Decode_False_iff Peek_False_iff)
qed

theorem failed_read_leaves_buffer_witness:
  "Decode \<lparr>data = [1, 2], data_size = 2, pos = 1,
           bit_decoder = \<lparr>dec_bit_buffer = [], dec_bit_offset = 0\<rparr>, bit_mode = False,
           bitstream_version = 0\<rparr> [9, 9, 9, 9] 4
     = Some (False, [9, 9, 9, 9],
         \<lparr>data = [1, 2], data_size = 2, pos = 1,
           bit_decoder = \<lparr>dec_bit_buffer = [], dec_bit_offset = 0\<rparr>, bit_mode = False,
           bitstream_version = 0\<rparr>)
   \<and> Peek_T 4 \<lparr>data = [1, 2], data_size = 2, pos = 1,
           bit_decoder = \<lparr>dec_bit_buffer = [], dec_bit_offset = 0\<rparr>, bit_mode = False,
           bitstream_version = 0\<rparr> [9, 9, 9, 9]
     = Some (False, [9, 9, 9, 9],
         \<lparr>data = [1, 2], data_size = 2, pos = 1,
           bit_decoder = \<lparr>dec_bit_buffer = [], dec_bit_offset = 0\<rparr>, bit_mode = False,
           bitstream_version = 0\<rparr>)"
  using failed_read_leaves_buffer [of
      "\<lparr>data = [1, 2], data_size = 2, pos = 1,
           bit_decoder = \<lparr>dec_bit_buffer = [], dec_bit_offset = 0\<rparr>, bit_mode = False,
           bitstream_version = 0\<rparr>" "[9, 9, 9, 9]" 4]
  by simp

text \<open>
  Claim C9. For a read of \<open>s\<close> bytes that is in bounds (the position is not negative, the
  \<open>s\<close> bytes from it end at or before \<^verbatim>\<open>data_size_\<close>, and the array has \<^verbatim>\<open>data_size_\<close>
  bytes), \<^verbatim>\<open>Peek\<close> succeeds, returns the same bytes as \<^verbatim>\<open>Decode\<close> and returns the buffer
  itself, so the position, \<^verbatim>\<open>decoded_size()\<close> and \<^verbatim>\<open>remaining_size()\<close> are unchanged;
  \<^verbatim>\<open>Decode\<close> differs only in advancing the position by \<open>s\<close>, and a \<^verbatim>\<open>Decode\<close> of \<open>s\<close>
  bytes after the \<^verbatim>\<open>Peek\<close> returns those same bytes.
\<close>

theorem peek_agrees_with_decode:
  assumes "0 \<le> sint (pos b)"
    and "sint (pos b) + uint s \<le> sint (data_size b)"
    and "sint (data_size b) \<le> int (length (data b))"
  shows "let bytes = take (unat s) (drop (nat (sint (pos b))) (data b)) @ drop (unat s) out
         in Peek b out s = Some (True, bytes, b)
          \<and> Peek_T s b out = Some (True, bytes, b)
          \<and> Decode b out s = Some (True, bytes, b\<lparr>pos := pos b + s\<rparr>)
          \<and> Decode_T s b out = Some (True, bytes, b\<lparr>pos := pos b + s\<rparr>)
          \<and> Decode b bytes s = Some (True, bytes, b\<lparr>pos := pos b + s\<rparr>)
          \<and> length (take (unat s) bytes) = unat s
          \<and> decoded_size (b\<lparr>pos := pos b + s\<rparr>) = decoded_size b + s"
proof -
  have chk: "\<not> data_size b <s pos b + s" using assms(1,2) by (rule inbounds_check)
  have le: "sint (pos b) + uint s \<le> int (length (data b))" using assms(2,3) by simp
  have cp: "memcpy_data (data b) (pos b) s dst =
        Some (take (unat s) (drop (nat (sint (pos b))) (data b)) @ drop (unat s) dst)" for dst
    using assms(1) le by (rule memcpy_data_inbounds)
  have "int (nat (sint (pos b)) + unat s) = sint (pos b) + uint s" using assms(1) by simp
  then have "int (nat (sint (pos b)) + unat s) \<le> int (length (data b))" using le by simp
  then have n: "nat (sint (pos b)) + unat s \<le> length (data b)" by (simp only: of_nat_le_iff)
  then have len: "length (take (unat s) (drop (nat (sint (pos b))) (data b))) = unat s"
    by simp
  show ?thesis
    using chk cp len
    by (simp add: Let_def Peek_T_eq_Peek Decode_T_eq_Decode Peek_def Decode_def decoded_size_def)
qed

theorem peek_agrees_with_decode_witness:
  "Peek \<lparr>data = [1, 2, 3, 4], data_size = 4, pos = 1,
           bit_decoder = \<lparr>dec_bit_buffer = [], dec_bit_offset = 0\<rparr>, bit_mode = False,
           bitstream_version = 0\<rparr> [0, 0, 0] 2
     = Some (True, [2, 3, 0],
         \<lparr>data = [1, 2, 3, 4], data_size = 4, pos = 1,
           bit_decoder = \<lparr>dec_bit_buffer = [], dec_bit_offset = 0\<rparr>, bit_mode = False,
           bitstream_version = 0\<rparr>)
   \<and> Decode \<lparr>data = [1, 2, 3, 4], data_size = 4, pos = 1,
           bit_decoder = \<lparr>dec_bit_buffer = [], dec_bit_offset = 0\<rparr>, bit_mode = False,
           bitstream_version = 0\<rparr> [2, 3, 0] 2
     = Some (True, [2, 3, 0],
         \<lparr>data = [1, 2, 3, 4], data_size = 4, pos = 3,
           bit_decoder = \<lparr>dec_bit_buffer = [], dec_bit_offset = 0\<rparr>, bit_mode = False,
           bitstream_version = 0\<rparr>)"
  using peek_agrees_with_decode [of
      "\<lparr>data = [1, 2, 3, 4], data_size = 4, pos = 1,
           bit_decoder = \<lparr>dec_bit_buffer = [], dec_bit_offset = 0\<rparr>, bit_mode = False,
           bitstream_version = 0\<rparr>" 2 "[0, 0, 0]"]
  by (simp add: Let_def)

section \<open>Byte-mode writes of the encoder buffer\<close>

text \<open>
  Claim C6. While the bit encoder is active, both byte-mode writes (of a typed value and of
  a span of raw bytes) return false and return the encoder buffer unchanged, its contents
  included.
\<close>

theorem encode_rejected_in_bit_mode:
  assumes "bit_encoder_active e"
  shows "Encode_T src_data e = (False, e) \<and> Encode src_data n e = Some (False, e)"
  using assms by (simp add: Encode_T_def Encode_def)

theorem encode_rejected_in_bit_mode_witness:
  "bit_encoder_active \<lparr>buffer = [1, 2, 0, 0], bit_encoder = Some \<lparr>enc_bit_buffer = 2, enc_bit_offset = 0\<rparr>,
       bit_encoder_reserved_bytes = 2, encode_bit_sequence_size = False\<rparr>
   \<and> Encode_T [7, 7] \<lparr>buffer = [1, 2, 0, 0], bit_encoder = Some \<lparr>enc_bit_buffer = 2, enc_bit_offset = 0\<rparr>,
       bit_encoder_reserved_bytes = 2, encode_bit_sequence_size = False\<rparr>
     = (False, \<lparr>buffer = [1, 2, 0, 0], bit_encoder = Some \<lparr>enc_bit_buffer = 2, enc_bit_offset = 0\<rparr>,
       bit_encoder_reserved_bytes = 2, encode_bit_sequence_size = False\<rparr>)
   \<and> Encode [7, 7] 2 \<lparr>buffer = [1, 2, 0, 0], bit_encoder = Some \<lparr>enc_bit_buffer = 2, enc_bit_offset = 0\<rparr>,
       bit_encoder_reserved_bytes = 2, encode_bit_sequence_size = False\<rparr>
     = Some (False, \<lparr>buffer = [1, 2, 0, 0], bit_encoder = Some \<lparr>enc_bit_buffer = 2, enc_bit_offset = 0\<rparr>,
       bit_encoder_reserved_bytes = 2, encode_bit_sequence_size = False\<rparr>)"
proof -
  have a: "bit_encoder_active \<lparr>buffer = [1, 2, 0, 0], bit_encoder = Some \<lparr>enc_bit_buffer = 2, enc_bit_offset = 0\<rparr>,
       bit_encoder_reserved_bytes = 2, encode_bit_sequence_size = False\<rparr>"
    by (simp add: bit_encoder_active_def word_sless_alt)
  show ?thesis using a encode_rejected_in_bit_mode [OF a, of "[7, 7]" 2] by simp
qed

section \<open>Corners of a mesh\<close>

lemma sdiv3_nonneg: "0 \<le> (k :: int) \<Longrightarrow> k sdiv 3 = k div 3"
  by (cases "k = 0") (simp_all add: signed_divide_int_def sgn_if)

lemma smod3_nonneg: "0 \<le> (k :: int) \<Longrightarrow> k smod 3 = k mod 3"
  by (cases "k = 0") (simp_all add: signed_modulo_int_def sgn_if)

lemma unat_face_index:
  assumes "0 \<le> sint (ci :: 32 word)"
  shows "unat (word_of_int (sint ci div 3) :: 32 word) = nat (sint ci) div 3"
proof -
  have "sint ci < 2 ^ 31" using sint_lt [of ci] by simp
  then have b: "0 \<le> sint ci div 3" "sint ci div 3 < 2 ^ 32" using assms by simp_all
  have "uint (word_of_int (sint ci div 3) :: 32 word) = (sint ci div 3) mod 2 ^ 32"
    by (simp only: uint_word_of_int) simp
  also have "\<dots> = sint ci div 3" using b by (intro mod_pos_pos_trivial) simp_all
  finally have "unat (word_of_int (sint ci div 3) :: 32 word) = nat (sint ci div 3)"
    by (simp add: unat_eq_nat_uint)
  also have "\<dots> = nat (sint ci) div 3" using assms by (simp add: nat_div_distrib)
  finally show ?thesis .
qed

lemma Face_at_mod3: "\<exists>p. Face_at f (k mod 3) = Some p"
proof -
  obtain p0 p1 p2 where f: "f = (p0, p1, p2)" by (cases f) auto
  have "k mod 3 = 0 \<or> k mod 3 = 1 \<or> k mod 3 = 2"
    using pos_mod_bound [of 3 k] pos_mod_sign [of 3 k] by linarith
  then show ?thesis using f by auto
qed

lemma CornerToPointId_valid:
  assumes "0 \<le> sint ci" "ci \<noteq> kInvalidCornerIndex" "nat (sint ci) div 3 < length (faces m)"
  shows "CornerToPointId kInvalidCornerIndex kInvalidPointIndex m ci =
           (Face_at (faces m ! (nat (sint ci) div 3)) (sint ci mod 3),
            [word_of_int (sint ci div 3)])"
proof -
  have "\<not> ci <s 0" using assms(1) by (simp add: word_sless_alt)
  moreover have "face m (word_of_int (sint ci div 3)) = Some (faces m ! (nat (sint ci) div 3))"
    using assms(1,3) by (simp add: face_def unat_face_index)
  ultimately show ?thesis using assms(1,2)
    by (simp add: CornerToPointId_def sdiv3_nonneg smod3_nonneg)
qed

lemma CornerToPointId_invalid:
  "ci <s 0 \<or> ci = kInvalidCornerIndex \<Longrightarrow>
   CornerToPointId kInvalidCornerIndex kInvalidPointIndex m ci = (Some kInvalidPointIndex, [])"
  by (simp add: CornerToPointId_def)

lemma CornerToPointId_reads:
  "snd (CornerToPointId kInvalidCornerIndex kInvalidPointIndex m ci) \<noteq> [] \<Longrightarrow>
   0 \<le>s ci \<and> ci \<noteq> kInvalidCornerIndex"
  by (auto simp add: CornerToPointId_def word_sle_eq word_sless_alt split: if_splits)

lemma nonneg_int_corner:
  assumes "unat (ci :: 32 word) < 2 ^ 31"
  shows "0 \<le> sint ci" and "nat (sint ci) = unat ci" and "sint ci = int (unat ci)"
proof -
  from assms have "int (unat ci) < int (2 ^ 31)" by (simp only: of_nat_less_iff)
  then have u: "uint ci < 2 ^ 31" by simp
  moreover have "- (2 ^ 31) \<le> uint ci" by (rule order_trans [of _ 0]) simp_all
  ultimately have "signed_take_bit 31 (uint ci) = uint ci"
    by (rule signed_take_bit_int_eq_self [rotated])
  then have s: "sint ci = uint ci" by (simp add: sint_uint)
  show "0 \<le> sint ci" using s by simp
  show "nat (sint ci) = unat ci" using s by simp
  show "sint ci = int (unat ci)" using s by simp
qed

lemma Face_at_entry:
  "0 \<le> k \<Longrightarrow> k < 3 \<Longrightarrow>
   Face_at (p0, p1, p2) k = Some (if k = 0 then p0 else if k = 1 then p1 else p2)"
  by auto

text \<open>
  Claim C7, as stated: every corner index \<open>c \<ge> 0\<close> of a mesh is mapped by
  \<^verbatim>\<open>CornerToPointId\<close> to entry \<open>c % 3\<close> of face \<open>c / 3\<close>. A mesh of 715827883 faces \<open>(0, 1, 2)\<close>
  has the corner \<open>2\<^sup>3\<^sup>1\<close>, entry 2 of its last face, whose vertex is the point 2. Passed as a
  \<^verbatim>\<open>CornerIndex\<close>, its value becomes a negative \<^verbatim>\<open>int\<close>, and the function returns the
  invalid point index without reading a face.
\<close>

theorem corner_index_overload_counterexample:
  "corner_table_face 2147483648 < length (replicate 715827883 ((0, 1, 2) :: Face))
   \<and> corner_table_vertex (replicate 715827883 (0, 1, 2)) 2147483648 = Some 2
   \<and> CornerToPointId_CornerIndex 4294967295 4294967295
         \<lparr>faces = replicate 715827883 (0, 1, 2)\<rparr> 2147483648
       = (Some 4294967295, [])
   \<and> fst (CornerToPointId_CornerIndex 4294967295 4294967295
         \<lparr>faces = replicate 715827883 (0, 1, 2)\<rparr> 2147483648)
       \<noteq> corner_table_vertex (replicate 715827883 (0, 1, 2)) 2147483648"
  by (simp add: corner_table_face_def corner_table_vertex_def CornerToPointId_CornerIndex_def
        CornerToPointId_def word_sless_alt)

text \<open>
  Claim C7, amended: for every corner index \<open>c\<close> with \<open>0 \<le> c < 2\<^sup>3\<^sup>1\<close> of a mesh (its face
  \<open>c / 3\<close> exists, and \<open>c\<close> is not the invalid corner index), the corner-table accessors
  satisfy \<open>face(c) = c / 3\<close> and \<open>vertex(c) = face_vertex[face(c)][c % 3]\<close>, and both overloads
  of \<^verbatim>\<open>CornerToPointId\<close> read exactly face \<open>c / 3\<close> and return that vertex: the first entry
  of the face when \<open>c % 3 = 0\<close>, the second when \<open>c % 3 = 1\<close>, the third when \<open>c % 3 = 2\<close>.
\<close>

theorem corner_to_point_id_entry:
  assumes "unat ci < 2 ^ 31"
    and "ci \<noteq> kInvalidCornerIndex"
    and "unat ci div 3 < length (faces m)"
    and "faces m ! (unat ci div 3) = (p0, p1, p2)"
  shows "CornerToPointId kInvalidCornerIndex kInvalidPointIndex m ci
           = (Some (if unat ci mod 3 = 0 then p0 else if unat ci mod 3 = 1 then p1 else p2),
              [of_nat (unat ci div 3)])
         \<and> CornerToPointId_CornerIndex kInvalidCornerIndex kInvalidPointIndex m ci
           = (Some (if unat ci mod 3 = 0 then p0 else if unat ci mod 3 = 1 then p1 else p2),
              [of_nat (unat ci div 3)])
         \<and> face m (of_nat (unat ci div 3)) = Some (p0, p1, p2)
         \<and> corner_table_face (unat ci) = unat ci div 3
         \<and> corner_table_vertex (faces m) (unat ci)
           = Some (if unat ci mod 3 = 0 then p0 else if unat ci mod 3 = 1 then p1 else p2)"
proof -
  note c = nonneg_int_corner [OF assms(1)]
  let ?k = "sint ci mod 3"
  have k: "0 \<le> ?k" "?k < 3" by simp_all
  have "int (unat ci mod 3) = int (unat ci) mod 3" by (simp only: zmod_int) simp
  then have kn: "?k = int (unat ci mod 3)" by (simp only: c(3))
  have "int (unat ci div 3) = int (unat ci) div 3" by (simp only: zdiv_int) simp
  then have "sint ci div 3 = int (unat ci div 3)" by (simp only: c(3))
  then have fi: "(word_of_int (sint ci div 3) :: 32 word) = of_nat (unat ci div 3)"
    by (simp only: of_int_of_nat_eq)
  have idx: "nat (sint ci) div 3 < length (faces m)" using assms(3) c(2) by simp
  have "CornerToPointId kInvalidCornerIndex kInvalidPointIndex m ci =
           (Face_at (faces m ! (nat (sint ci) div 3)) ?k, [word_of_int (sint ci div 3)])"
    using c(1) assms(2) idx by (rule CornerToPointId_valid)
  also have "faces m ! (nat (sint ci) div 3) = (p0, p1, p2)" using assms(4) c(2) by simp
  also have "Face_at (p0, p1, p2) ?k = Some (if ?k = 0 then p0 else if ?k = 1 then p1 else p2)"
    using k by (rule Face_at_entry)
  finally have r: "CornerToPointId kInvalidCornerIndex kInvalidPointIndex m ci
           = (Some (if unat ci mod 3 = 0 then p0 else if unat ci mod 3 = 1 then p1 else p2),
              [of_nat (unat ci div 3)])"
    unfolding fi kn by simp
  have f: "face m (of_nat (unat ci div 3)) = Some (p0, p1, p2)"
  proof -
    have "face m (word_of_int (sint ci div 3)) = Some (faces m ! (nat (sint ci) div 3))"
      using c(1) idx by (simp add: face_def unat_face_index)
    then show ?thesis using assms(4) c(2) fi by simp
  qed
  have v: "corner_table_vertex (faces m) (unat ci)
           = Some (if unat ci mod 3 = 0 then p0 else if unat ci mod 3 = 1 then p1 else p2)"
    using assms(3,4) by (simp add: corner_table_vertex_def corner_table_face_def)
  show ?thesis using r f v by (simp add: CornerToPointId_CornerIndex_def corner_table_face_def)
qed

theorem corner_to_point_id_entry_witness:
  "CornerToPointId 4294967295 4294967295 \<lparr>faces = [(0, 1, 2), (7, 8, 9)]\<rparr> 3 = (Some 7, [1])
   \<and> CornerToPointId 4294967295 4294967295 \<lparr>faces = [(0, 1, 2), (7, 8, 9)]\<rparr> 4 = (Some 8, [1])
   \<and> CornerToPointId 4294967295 4294967295 \<lparr>faces = [(0, 1, 2), (7, 8, 9)]\<rparr> 5 = (Some 9, [1])
   \<and> CornerToPointId_CornerIndex 4294967295 4294967295 \<lparr>faces = [(0, 1, 2), (7, 8, 9)]\<rparr> 1
       = (Some 1, [0])
   \<and> corner_table_vertex [(0, 1, 2), (7, 8, 9)] 4 = Some 8"
  using corner_to_point_id_entry [of 3 4294967295 "\<lparr>faces = [(0, 1, 2), (7, 8, 9)]\<rparr>" 7 8 9 4294967295]
    corner_to_point_id_entry [of 4 4294967295 "\<lparr>faces = [(0, 1, 2), (7, 8, 9)]\<rparr>" 7 8 9 4294967295]
    corner_to_point_id_entry [of 5 4294967295 "\<lparr>faces = [(0, 1, 2), (7, 8, 9)]\<rparr>" 7 8 9 4294967295]
    corner_to_point_id_entry [of 1 4294967295 "\<lparr>faces = [(0, 1, 2), (7, 8, 9)]\<rparr>" 0 1 2 4294967295]
  by simp

text \<open>
  Claim C10. Called with a negative corner index or with the invalid corner index,
  \<^verbatim>\<open>CornerToPointId\<close> returns \<^verbatim>\<open>kInvalidPointIndex\<close> and reads no face; whenever it indexes
  the face array, the corner index is not negative and is not the invalid corner index.
\<close>

theorem corner_to_point_id_invalid:
  "(ci <s 0 \<or> ci = kInvalidCornerIndex \<longrightarrow>
      CornerToPointId kInvalidCornerIndex kInvalidPointIndex m ci = (Some kInvalidPointIndex, [])
      \<and> CornerToPointId_CornerIndex kInvalidCornerIndex kInvalidPointIndex m ci
           = (Some kInvalidPointIndex, []))
   \<and> (snd (CornerToPointId kInvalidCornerIndex kInvalidPointIndex m ci) \<noteq> [] \<longrightarrow>
      0 \<le>s ci \<and> ci \<noteq> kInvalidCornerIndex)"
  using CornerToPointId_invalid [of ci kInvalidCornerIndex kInvalidPointIndex m]
    CornerToPointId_reads [of kInvalidCornerIndex kInvalidPointIndex m ci]
  by (simp add: CornerToPointId_CornerIndex_def)

theorem corner_to_point_id_invalid_witness:
  "CornerToPointId 4294967295 4294967295 \<lparr>faces = []\<rparr> (- 1) = (Some 4294967295, [])
   \<and> CornerToPointId 4294967295 4294967295 \<lparr>faces = []\<rparr> (- 7) = (Some 4294967295, [])
   \<and> snd (CornerToPointId 4294967295 4294967295 \<lparr>faces = [(0, 1, 2)]\<rparr> 2) \<noteq> []
   \<and> 0 \<le>s (2 :: 32 word)"
proof -
  have r: "snd (CornerToPointId 4294967295 4294967295 \<lparr>faces = [(0, 1, 2)]\<rparr> 2) \<noteq> []"
    by (simp add: CornerToPointId_def word_sless_alt face_def)
  show ?thesis
    using r corner_to_point_id_invalid [of "- 1" 4294967295 4294967295 "\<lparr>faces = []\<rparr>"]
      corner_to_point_id_invalid [of "- 7" 4294967295 4294967295 "\<lparr>faces = []\<rparr>"]
      corner_to_point_id_invalid [of 2 4294967295 4294967295 "\<lparr>faces = [(0, 1, 2)]\<rparr>"]
    by (simp add: word_sless_alt)
qed

section \<open>Bit coding\<close>

lemma low_bit_as_byte: "(ucast (drop_bit i (d :: 32 word) AND 1) :: 8 word) = of_bool (bit d i)"
  by (simp add: and_one_eq mod_2_eq_odd bit_iff_odd_drop_bit)

lemma byte_bit_as_int: "(ucast (drop_bit i (c :: 8 word)) AND 1 :: 32 word) = of_bool (bit c i)"
  apply (rule bit_word_eqI)
  apply (auto simp add: bit_simps bit_1_iff)
  done

lemma bit_set_byte:
  assumes "j < 8" "sh < 8"
  shows "bit (((c :: 8 word) AND NOT (push_bit sh 1)) OR push_bit sh (of_bool v)) j
           = (if j = sh then v else bit c j)"
  using assms by (auto simp add: bit_simps bit_1_iff)



lemma bit_pos_eq: "(k div 8 = s + off div 8 \<and> k mod 8 = off mod 8) = (k = 8 * s + (off :: nat))"
proof
  assume a: "k div 8 = s + off div 8 \<and> k mod 8 = off mod 8"
  have "k = 8 * (k div 8) + k mod 8" by simp
  also have "\<dots> = 8 * (s + off div 8) + off mod 8" using a by simp
  also have "\<dots> = 8 * s + (8 * (off div 8) + off mod 8)"
    by (simp only: add_mult_distrib2 add.assoc)
  also have "\<dots> = 8 * s + off" by simp
  finally show "k = 8 * s + off" .
next
  assume "k = 8 * s + off"
  then show "k div 8 = s + off div 8 \<and> k mod 8 = off mod 8" by simp
qed

lemma PutBit_ok:
  assumes "8 * enc_bit_buffer e + enc_bit_offset e < 8 * length mem"
  shows "\<exists>mem'. PutBit (of_bool v) e mem = Some (e\<lparr>enc_bit_offset := enc_bit_offset e + 1\<rparr>, mem')
           \<and> length mem' = length mem
           \<and> (\<forall>k. bit_at mem' k =
                 (if k = 8 * enc_bit_buffer e + enc_bit_offset e then v else bit_at mem k))"
proof -
  let ?s = "enc_bit_buffer e" and ?off = "enc_bit_offset e"
  let ?i = "?s + ?off div 8" and ?sh = "?off mod 8"
  let ?c = "(mem ! ?i AND NOT (push_bit ?sh 1)) OR push_bit ?sh (of_bool v)"
  have i: "?i < length mem" using assms by presburger
  have put: "PutBit (of_bool v) e mem = Some (e\<lparr>enc_bit_offset := ?off + 1\<rparr>, mem[?i := ?c])"
    using i by (simp add: PutBit_def Let_def)
  have "bit_at (mem[?i := ?c]) k = (if k = 8 * ?s + ?off then v else bit_at mem k)" for k
  proof (cases "k div 8 = ?i")
    case True
    have "bit_at (mem[?i := ?c]) k = bit ?c (k mod 8)"
      using True i by (simp add: bit_at_def)
    also have "\<dots> = (if k mod 8 = ?sh then v else bit (mem ! ?i) (k mod 8))"
      by (rule bit_set_byte) simp_all
    also have "\<dots> = (if k = 8 * ?s + ?off then v else bit_at mem k)"
      using True bit_pos_eq [of k ?s ?off] by (simp add: bit_at_def)
    finally show ?thesis .
  next
    case False
    then have "k \<noteq> 8 * ?s + ?off" using bit_pos_eq [of k ?s ?off] by blast
    then show ?thesis using False by (simp add: bit_at_def)
  qed
  then show ?thesis using put by simp
qed

lemma PutBits_loop_ok:
  assumes "nbits = int (i + m)"
    and "8 * enc_bit_buffer e + enc_bit_offset e + m \<le> 8 * length mem"
    and "i + m \<le> 32"
  shows "\<exists>mem'. PutBits_loop dat nbits i e mem
               = Some (e\<lparr>enc_bit_offset := enc_bit_offset e + m\<rparr>, mem')
           \<and> length mem' = length mem
           \<and> (\<forall>k. bit_at mem' k =
                 (if 8 * enc_bit_buffer e + enc_bit_offset e \<le> k
                     \<and> k < 8 * enc_bit_buffer e + enc_bit_offset e + m
                  then bit dat (i + (k - (8 * enc_bit_buffer e + enc_bit_offset e)))
                  else bit_at mem k))"
  using assms
proof (induction m arbitrary: i e mem)
  case 0
  then have "PutBits_loop dat nbits i e mem = Some (e, mem)"
    by (subst PutBits_loop.simps) simp
  then show ?case by auto
next
  case (Suc m)
  let ?p = "8 * enc_bit_buffer e + enc_bit_offset e"
  let ?e1 = "e\<lparr>enc_bit_offset := enc_bit_offset e + 1\<rparr>"
  have c: "int i < nbits" using Suc.prems(1) by simp
  have i32: "\<not> 32 \<le> i" using Suc.prems(3) by simp
  have "?p < 8 * length mem" using Suc.prems(2) by simp
  then obtain mem1 where put: "PutBit (of_bool (bit dat i)) e mem = Some (?e1, mem1)"
    and len1: "length mem1 = length mem"
    and bits1: "\<And>k. bit_at mem1 k = (if k = ?p then bit dat i else bit_at mem k)"
    using PutBit_ok [of e mem "bit dat i"] by blast
  have step: "PutBits_loop dat nbits i e mem = PutBits_loop dat nbits (i + 1) ?e1 mem1"
    using c i32 put by (subst PutBits_loop.simps) (simp add: low_bit_as_byte)
  have n1: "nbits = int ((i + 1) + m)" using Suc.prems(1) by simp
  have cap1: "8 * enc_bit_buffer ?e1 + enc_bit_offset ?e1 + m \<le> 8 * length mem1"
    using Suc.prems(2) len1 by simp
  have b1: "(i + 1) + m \<le> 32" using Suc.prems(3) by simp
  have p1: "8 * enc_bit_buffer ?e1 + enc_bit_offset ?e1 = ?p + 1" by simp
  obtain mem' where run: "PutBits_loop dat nbits (i + 1) ?e1 mem1
        = Some (?e1\<lparr>enc_bit_offset := enc_bit_offset ?e1 + m\<rparr>, mem')"
    and len: "length mem' = length mem1"
    and bits: "\<And>k. bit_at mem' k =
                 (if ?p + 1 \<le> k \<and> k < ?p + 1 + m
                  then bit dat ((i + 1) + (k - (?p + 1)))
                  else bit_at mem1 k)"
    using Suc.IH [OF n1 cap1 b1] unfolding p1 by blast
  have "bit_at mem' k =
          (if ?p \<le> k \<and> k < ?p + Suc m then bit dat (i + (k - ?p)) else bit_at mem k)" for k
  proof -
    consider "k = ?p" | "?p + 1 \<le> k \<and> k < ?p + 1 + m" | "k < ?p \<or> ?p + 1 + m \<le> k"
      by linarith
    then show ?thesis
    proof cases
      case 1
      have "bit_at mem' k = bit_at mem1 k" using 1 by (subst bits) simp
      also have "\<dots> = bit dat i" using 1 by (subst bits1) simp
      finally show ?thesis using 1 by simp
    next
      case 2
      have e: "(i + 1) + (k - (?p + 1)) = i + (k - ?p)" using 2 by linarith
      have "bit_at mem' k = bit dat ((i + 1) + (k - (?p + 1)))"
        using 2 by (subst bits) (simp only: if_True simp_thms)
      also have "\<dots> = bit dat (i + (k - ?p))" by (simp only: e)
      finally show ?thesis using 2 by simp
    next
      case 3
      have "bit_at mem' k = bit_at mem1 k"
        using 3 by (subst bits) auto
      also have "\<dots> = bit_at mem k" using 3 by (subst bits1) auto
      finally show ?thesis using 3 by auto
    qed
  qed
  then show ?case using step run len len1 by simp
qed


lemma GetBit_ok:
  assumes "dec_bit_offset d < 8 * length (dec_bit_buffer d)"
  shows "GetBit d = (of_bool (bit_at (dec_bit_buffer d) (dec_bit_offset d)),
                     d\<lparr>dec_bit_offset := dec_bit_offset d + 1\<rparr>)"
proof -
  have "dec_bit_offset d div 8 < length (dec_bit_buffer d)" using assms by presburger
  then show ?thesis by (simp add: GetBit_def Let_def byte_bit_as_int bit_at_def)
qed

lemma bit_or_shifted_flag:
  "bit ((val :: 32 word) OR push_bit i (of_bool c)) j = (bit val j \<or> (j = i \<and> j < 32 \<and> c))"
  by (auto simp add: bit_simps)

lemma GetBits_loop_ok:
  assumes "dec_bit_offset d + m \<le> 8 * length (dec_bit_buffer d)"
  shows "snd (GetBits_loop i (i + m) val d) = d\<lparr>dec_bit_offset := dec_bit_offset d + m\<rparr>
         \<and> (\<forall>j. bit (fst (GetBits_loop i (i + m) val d)) j =
               (bit val j \<or> (i \<le> j \<and> j < i + m \<and> j < 32
                   \<and> bit_at (dec_bit_buffer d) (dec_bit_offset d + (j - i)))))"
  using assms
proof (induction m arbitrary: i val d)
  case 0
  have "GetBits_loop i (i + 0) val d = (val, d)" by (subst GetBits_loop.simps) simp
  then show ?case by auto
next
  case (Suc m)
  let ?b = "bit_at (dec_bit_buffer d) (dec_bit_offset d)"
  let ?d1 = "d\<lparr>dec_bit_offset := dec_bit_offset d + 1\<rparr>"
  let ?v1 = "val OR push_bit i (of_bool ?b)"
  have "dec_bit_offset d < 8 * length (dec_bit_buffer d)" using Suc.prems by simp
  then have g: "GetBit d = (of_bool ?b, ?d1)" by (rule GetBit_ok)
  have step: "GetBits_loop i (i + Suc m) val d = GetBits_loop (i + 1) ((i + 1) + m) ?v1 ?d1"
    using g by (subst GetBits_loop.simps) simp
  have cap: "dec_bit_offset ?d1 + m \<le> 8 * length (dec_bit_buffer ?d1)" using Suc.prems by simp
  note ih = Suc.IH [OF cap, of "i + 1" ?v1]
  have s: "snd (GetBits_loop i (i + Suc m) val d) = d\<lparr>dec_bit_offset := dec_bit_offset d + Suc m\<rparr>"
    using ih step by simp
  have "bit (fst (GetBits_loop i (i + Suc m) val d)) j =
          (bit val j \<or> (i \<le> j \<and> j < i + Suc m \<and> j < 32
              \<and> bit_at (dec_bit_buffer d) (dec_bit_offset d + (j - i))))" for j
  proof -
    have "bit (fst (GetBits_loop i (i + Suc m) val d)) j =
            (bit ?v1 j \<or> (i + 1 \<le> j \<and> j < i + 1 + m \<and> j < 32
                \<and> bit_at (dec_bit_buffer d) (dec_bit_offset d + 1 + (j - (i + 1)))))"
      using ih step by simp
    also have "\<dots> = (bit val j \<or> (j = i \<and> j < 32 \<and> ?b)
              \<or> (i + 1 \<le> j \<and> j < i + 1 + m \<and> j < 32
                \<and> bit_at (dec_bit_buffer d) (dec_bit_offset d + 1 + (j - (i + 1)))))"
      by (simp only: bit_or_shifted_flag) blast
    also have "\<dots> = (bit val j \<or> (i \<le> j \<and> j < i + Suc m \<and> j < 32
              \<and> bit_at (dec_bit_buffer d) (dec_bit_offset d + (j - i))))"
    proof (cases "j = i")
      case True
      then show ?thesis by simp
    next
      case False
      have "dec_bit_offset d + 1 + (j - (i + 1)) = dec_bit_offset d + (j - i)" if "i + 1 \<le> j"
        using that by linarith
      then show ?thesis using False by auto
    qed
    finally show ?thesis .
  qed
  then show ?case using s by blast
qed

lemma bit_at_drop:
  "8 * s + k < 8 * length mem \<Longrightarrow> bit_at (drop s mem) k = bit_at mem (8 * s + k)"
proof -
  assume a: "8 * s + k < 8 * length mem"
  then have "s + k div 8 < length mem" by presburger
  then have "drop s mem ! (k div 8) = mem ! (s + k div 8)" by simp
  moreover have "(8 * s + k) div 8 = s + k div 8" "(8 * s + k) mod 8 = k mod 8" by presburger+
  ultimately show ?thesis by (simp add: bit_at_def)
qed

lemma GetBits_ok:
  assumes "n \<le> 32" "dec_bit_offset d + n \<le> 8 * length (dec_bit_buffer d)"
    and "\<And>j. j < n \<Longrightarrow> bit_at (dec_bit_buffer d) (dec_bit_offset d + j) = bit (v :: 32 word) j"
  shows "GetBits (of_nat n) x d = (True, take_bit n v, d\<lparr>dec_bit_offset := dec_bit_offset d + n\<rparr>)"
proof -
  have u: "unat (of_nat n :: 32 word) = n" using assms(1) by (simp add: unat_of_nat)
  have "\<not> 32 < (of_nat n :: 32 word)" using u assms(1) by (simp add: word_less_nat_alt)
  moreover note l = GetBits_loop_ok [OF assms(2), of 0 0]
  have f: "fst (GetBits_loop 0 n 0 d) = take_bit n v"
  proof (rule bit_word_eqI)
    fix j assume "j < LENGTH(32)"
    then have j: "j < 32" by simp
    show "bit (fst (GetBits_loop 0 n 0 d)) j = bit (take_bit n v) j"
      using l j assms(3) [of j] by (auto simp add: bit_take_bit_iff)
  qed
  have "snd (GetBits_loop 0 n 0 d) = d\<lparr>dec_bit_offset := dec_bit_offset d + n\<rparr>"
    using l by simp
  then have "GetBits_loop 0 n 0 d = (take_bit n v, d\<lparr>dec_bit_offset := dec_bit_offset d + n\<rparr>)"
    using f by (intro prod_eqI) simp_all
  ultimately show ?thesis using u by (simp add: GetBits_def Let_def)
qed

text \<open>
  Claim C5. In bit mode the bits are packed least significant bit first within each byte,
  and the coding round-trips. Let the bit encoder be active, with room for \<open>n\<close> more bits in
  the buffer, \<open>0 \<le> n \<le> 32\<close>. Then \<^verbatim>\<open>EncodeLeastSignificantBits32(n, v)\<close> succeeds, bit \<open>k\<close>
  of \<open>v\<close> is bit \<open>k\<close> after the old bit offset of the flat bit stream that starts at the bit
  encoder's storage, and a decoder buffer in bit mode that reads that storage from the old
  bit offset decodes, for \<open>n\<close> bits, the value \<open>v mod 2\<^sup>n\<close> and advances by \<open>n\<close> bits.
\<close>

theorem bit_coding_roundtrip:
  assumes "bit_encoder_active e"
    and "bit_encoder e = Some be"
    and "0 \<le> n" and "n \<le> 32"
    and "8 * enc_bit_buffer be + enc_bit_offset be + nat n \<le> 8 * length (buffer e)"
  shows "\<exists>e'. EncodeLeastSignificantBits32 n v e = Some (True, e')
           \<and> bit_encoder e' = Some (be\<lparr>enc_bit_offset := enc_bit_offset be + nat n\<rparr>)
           \<and> length (buffer e') = length (buffer e)
           \<and> (\<forall>k<nat n. bit_at (buffer e') (8 * enc_bit_buffer be + enc_bit_offset be + k)
                           = bit v k)
           \<and> (\<forall>b x. bit_decoder_active b
                    \<and> dec_bit_buffer (bit_decoder b) = drop (enc_bit_buffer be) (buffer e')
                    \<and> dec_bit_offset (bit_decoder b) = enc_bit_offset be \<longrightarrow>
                  DecodeLeastSignificantBits32 (word_of_int n) x b
                    = (True, take_bit (nat n) v,
                       b\<lparr>bit_decoder := (bit_decoder b)
                            \<lparr>dec_bit_offset := enc_bit_offset be + nat n\<rparr>\<rparr>))"
proof -
  let ?s = "enc_bit_buffer be" and ?off = "enc_bit_offset be" and ?m = "nat n"
  let ?be' = "be\<lparr>enc_bit_offset := ?off + ?m\<rparr>"
  have nb: "n = int (0 + ?m)" using assms(3) by simp
  have room32: "0 + ?m \<le> 32" using assms(4) by simp
  obtain mem' where run: "PutBits_loop v n 0 be (buffer e) = Some (?be', mem')"
    and len: "length mem' = length (buffer e)"
    and bits: "\<And>k. bit_at mem' k =
                 (if 8 * ?s + ?off \<le> k \<and> k < 8 * ?s + ?off + ?m
                  then bit v (0 + (k - (8 * ?s + ?off))) else bit_at (buffer e) k)"
    using PutBits_loop_ok [OF nb assms(5) room32, of v] by blast
  let ?e' = "e\<lparr>buffer := mem', bit_encoder := Some ?be'\<rparr>"
  have enc: "EncodeLeastSignificantBits32 n v e = Some (True, ?e')"
    using assms(1,2) run by (simp add: EncodeLeastSignificantBits32_def PutBits_def)
  have packed: "bit_at mem' (8 * ?s + ?off + k) = bit v k" if "k < ?m" for k
    using that by (subst bits) simp
  have dec: "DecodeLeastSignificantBits32 (word_of_int n) x b
                    = (True, take_bit ?m v,
                       b\<lparr>bit_decoder := (bit_decoder b)\<lparr>dec_bit_offset := ?off + ?m\<rparr>\<rparr>)"
    if act: "bit_decoder_active b"
      and buf: "dec_bit_buffer (bit_decoder b) = drop ?s mem'"
      and off: "dec_bit_offset (bit_decoder b) = ?off"
    for b x
  proof -
    let ?d = "bit_decoder b"
    have m32: "?m \<le> 32" using assms(4) by simp
    have "8 * length (drop ?s mem') = 8 * length mem' - 8 * ?s" by simp
    then have cap: "dec_bit_offset ?d + ?m \<le> 8 * length (dec_bit_buffer ?d)"
      using assms(5) len buf off by simp
    have rd: "bit_at (dec_bit_buffer ?d) (dec_bit_offset ?d + j) = bit v j" if "j < ?m" for j
    proof -
      have "8 * ?s + (?off + j) < 8 * length mem'" using that assms(5) len by simp
      then have "bit_at (drop ?s mem') (?off + j) = bit_at mem' (8 * ?s + (?off + j))"
        by (rule bit_at_drop)
      then show ?thesis using packed [OF that] buf off by (simp add: add.assoc)
    qed
    have "GetBits (of_nat ?m) x ?d
            = (True, take_bit ?m v, ?d\<lparr>dec_bit_offset := dec_bit_offset ?d + ?m\<rparr>)"
      using m32 cap rd by (rule GetBits_ok)
    moreover have "(of_nat ?m :: 32 word) = word_of_int n" using assms(3) by simp
    ultimately show ?thesis using act off
      by (simp add: DecodeLeastSignificantBits32_def)
  qed
  show ?thesis
    using enc len packed dec by (intro exI [of _ ?e']) simp
qed

theorem bit_coding_roundtrip_witness:
  "EncodeLeastSignificantBits32 7 85
     \<lparr>buffer = [0, 0, 0], bit_encoder = Some \<lparr>enc_bit_buffer = 1, enc_bit_offset = 3\<rparr>,
      bit_encoder_reserved_bytes = 2, encode_bit_sequence_size = False\<rparr>
   = Some (True, \<lparr>buffer = [0, 168, 2], bit_encoder = Some \<lparr>enc_bit_buffer = 1, enc_bit_offset = 10\<rparr>,
      bit_encoder_reserved_bytes = 2, encode_bit_sequence_size = False\<rparr>)
   \<and> DecodeLeastSignificantBits32 7 0
     \<lparr>data = [0, 168, 2], data_size = 3, pos = 1,
      bit_decoder = \<lparr>dec_bit_buffer = [168, 2], dec_bit_offset = 3\<rparr>, bit_mode = True,
      bitstream_version = 0\<rparr>
   = (True, 85, \<lparr>data = [0, 168, 2], data_size = 3, pos = 1,
      bit_decoder = \<lparr>dec_bit_buffer = [168, 2], dec_bit_offset = 10\<rparr>, bit_mode = True,
      bitstream_version = 0\<rparr>)"
proof -
  let ?e = "\<lparr>buffer = [0, 0, 0], bit_encoder = Some \<lparr>enc_bit_buffer = 1, enc_bit_offset = 3\<rparr>,
      bit_encoder_reserved_bytes = 2, encode_bit_sequence_size = False\<rparr>"
  let ?be = "\<lparr>enc_bit_buffer = 1, enc_bit_offset = 3\<rparr>"
  let ?b = "\<lparr>data = [0, 168, 2], data_size = 3, pos = 1,
      bit_decoder = \<lparr>dec_bit_buffer = [168, 2], dec_bit_offset = 3\<rparr>, bit_mode = True,
      bitstream_version = 0\<rparr>"
  have enc: "EncodeLeastSignificantBits32 7 85 ?e
      = Some (True, \<lparr>buffer = [0, 168, 2], bit_encoder = Some \<lparr>enc_bit_buffer = 1, enc_bit_offset = 10\<rparr>,
      bit_encoder_reserved_bytes = 2, encode_bit_sequence_size = False\<rparr>)"
    by (simp add: EncodeLeastSignificantBits32_def bit_encoder_active_def word_sless_alt
          PutBits_def PutBits_loop.simps PutBit_def Let_def)
  have h1: "bit_encoder_active ?e" by (simp add: bit_encoder_active_def word_sless_alt)
  have h2: "bit_encoder ?e = Some ?be" by simp
  have h5: "8 * enc_bit_buffer ?be + enc_bit_offset ?be + nat 7 \<le> 8 * length (buffer ?e)"
    by simp
  obtain e' where e': "EncodeLeastSignificantBits32 7 85 ?e = Some (True, e')"
    and dec: "\<And>b x. bit_decoder_active b
                    \<and> dec_bit_buffer (bit_decoder b) = drop (enc_bit_buffer ?be) (buffer e')
                    \<and> dec_bit_offset (bit_decoder b) = enc_bit_offset ?be \<Longrightarrow>
                  DecodeLeastSignificantBits32 (word_of_int 7) x b
                    = (True, take_bit (nat 7) 85,
                       b\<lparr>bit_decoder := (bit_decoder b)
                            \<lparr>dec_bit_offset := enc_bit_offset ?be + nat 7\<rparr>\<rparr>)"
    using bit_coding_roundtrip [OF h1 h2, of 7 85] h5 by auto
  have "buffer e' = [0, 168, 2]" using e' enc by auto
  then have "DecodeLeastSignificantBits32 (word_of_int 7) 0 ?b
       = (True, take_bit (nat 7) 85,
          ?b\<lparr>bit_decoder := (bit_decoder ?b)\<lparr>dec_bit_offset := enc_bit_offset ?be + nat 7\<rparr>\<rparr>)"
    by (intro dec) (simp add: bit_decoder_active_def)
  then show ?thesis using enc by simp
qed

text \<open>
  Claim C3. A read whose extent goes past the end of the input must fail. The bit-mode read
  does not: on a decoder buffer in bit mode over the single byte \<open>255\<close>, a read of 16 bits
  returns true with the value \<open>255\<close>; the eight bits past the end are read as zeros and the
  bit offset stops at the end of the data.
\<close>

theorem bit_read_past_end_succeeds:
  "DecodeLeastSignificantBits32 16 0
     \<lparr>data = [255], data_size = 1, pos = 0,
      bit_decoder = \<lparr>dec_bit_buffer = [255], dec_bit_offset = 0\<rparr>, bit_mode = True,
      bitstream_version = 0\<rparr>
   = (True, 255, \<lparr>data = [255], data_size = 1, pos = 0,
      bit_decoder = \<lparr>dec_bit_buffer = [255], dec_bit_offset = 8\<rparr>, bit_mode = True,
      bitstream_version = 0\<rparr>)"
  by (simp add: DecodeLeastSignificantBits32_def bit_decoder_active_def GetBits_def
        GetBits_loop.simps GetBit_def Let_def)

text \<open>The check of the byte-mode reads computes \<^verbatim>\<open>pos_ + size\<close> in 64 bits and reads the sum
  as signed: a size of \<open>2\<^sup>6\<^sup>4 - 1\<close> passes it on a buffer of two bytes, and the copy leaves
  the array.\<close>

lemma byte_read_size_wraps:
  "Decode \<lparr>data = [1, 2], data_size = 2, pos = 0,
           bit_decoder = \<lparr>dec_bit_buffer = [], dec_bit_offset = 0\<rparr>, bit_mode = False,
           bitstream_version = 0\<rparr> [] (- 1) = None"
  by (simp add: Decode_def memcpy_data_def word_sless_alt unsigned_minus_1_eq_mask
        mask_eq_exp_minus_1)

section \<open>Default compression options\<close>


text \<open>The defaults that the API reference lists for \<^verbatim>\<open>QuantizationBits\<close> are the stated
  ones; the constructor above differs from them for normals and texture coordinates.\<close>

lemma documented_defaults:
  "position QuantizationBits_default = 14
   \<and> normal QuantizationBits_default = 10
   \<and> color QuantizationBits_default = 8
   \<and> texcoord QuantizationBits_default = 12
   \<and> quantization_bits_normal (DracoCompressionOptions_init mk) \<noteq> normal QuantizationBits_default
   \<and> quantization_bits_color (DracoCompressionOptions_init mk) = color QuantizationBits_default
   \<and> quantization_bits_tex_coord (DracoCompressionOptions_init mk)
         \<noteq> texcoord QuantizationBits_default"
  by (simp add: QuantizationBits_default_def DracoCompressionOptions_init_def)

end
